theory Spec2Isabelle
  imports Complex_Main
begin

section \<open>JavaScript values used by the two components\<close>

text \<open>
  Numbers that hold page numbers are modelled as \<open>int\<close>. JavaScript represents every
  integer of magnitude below \<open>2^53\<close> exactly and computes on them without rounding (the safe
  integers); the model describes the arithmetic of the code on these. Window and page sizes
  are doubles, modelled as the rationals they stand for, with every quotient and product
  rounded to the nearest double. Strings are \<open>string\<close>; the model covers ASCII text.
\<close>

datatype exn = TypeError

definition safe_integer :: "int \<Rightarrow> bool" where
  "safe_integer n = (- (2 ^ 53) < n \<and> n < 2 ^ 53)"

text \<open>
  The result of running a function body: it returned a value, or it threw. A thrown
  exception does not undo the assignments made before it, so every operation returns the
  state it reached together with its outcome. \<open>OutsideModel\<close> marks an input the model
  does not describe (a start position that gives a fractional page number, a page number
  whose neighbours are not safe integers).
\<close>

datatype 'a outcome = Returned 'a | Threw exn | OutsideModel

datatype 'a settled = Fulfilled 'a | Rejected

datatype promise_state = Pending | Resolved

subsection \<open>Number to string, \<open>substr\<close>, \<open>parseInt\<close>, \<open>endsWith\<close>, \<open>toLowerCase\<close>\<close>

fun index_of :: "'a \<Rightarrow> 'a list \<Rightarrow> nat option" where
  "index_of x [] = None"
| "index_of x (y # ys) =
     (if x = y then Some 0 else (case index_of x ys of None \<Rightarrow> None | Some i \<Rightarrow> Some (Suc i)))"

definition digit_char :: "nat \<Rightarrow> char" where
  "digit_char d = ''0123456789'' ! d"

text \<open>The decimal digits of an integer that is not negative.\<close>

function digits :: "int \<Rightarrow> string" where
  "digits n =
     (if n < 10 then [digit_char (nat n)]
      else digits (n div 10) @ [digit_char (nat (n mod 10))])"
  by pat_completeness auto
termination
  by (relation "measure nat") auto

declare digits.simps [simp del]

text \<open>
  \<open>prefix + number\<close> converts the number with Number-to-String. Below \<open>10^21\<close> the
  result is the decimal digits; from \<open>10^21\<close> on it is exponent notation: the first
  significant digit, a point and the other significant digits if there are any, then
  \<open>e+\<close> and the decimal exponent. A negative value gets a leading minus sign. The
  significant digits are taken to be the digits of the integer without its trailing
  zeros: that is what JavaScript prints for every safe integer and for every integral
  number with at most 15 significant digits, \<open>10^21\<close> among them. Other integers are not
  covered.
\<close>

definition strip_zeros :: "string \<Rightarrow> string" where
  "strip_zeros ds = rev (dropWhile (\<lambda>c. c = CHR ''0'') (rev ds))"

definition exponent_notation :: "int \<Rightarrow> string" where
  "exponent_notation m =
     (let ds = digits m;
          sig = strip_zeros ds;
          e = int (length ds) - 1
      in (if length sig = 1 then sig else hd sig # CHR ''.'' # tl sig) @ ''e+'' @ digits e)"

definition number_toString :: "int \<Rightarrow> string" where
  "number_toString n =
     (let m = \<bar>n\<bar>;
          body = (if m < 10 ^ 21 then digits m else exponent_notation m)
      in if n < 0 then CHR ''-'' # body else body)"

text \<open>\<open>s.substr(start)\<close> for a start index that is not negative.\<close>

definition substr :: "string \<Rightarrow> nat \<Rightarrow> string" where
  "substr s start = drop start s"

definition char_toLowerCase :: "char \<Rightarrow> char" where
  "char_toLowerCase c =
     (case index_of c ''ABCDEFGHIJKLMNOPQRSTUVWXYZ'' of
        None \<Rightarrow> c
      | Some i \<Rightarrow> ''abcdefghijklmnopqrstuvwxyz'' ! i)"

definition toLowerCase :: "string \<Rightarrow> string" where
  "toLowerCase s = map char_toLowerCase s"

definition endsWith :: "string \<Rightarrow> string \<Rightarrow> bool" where
  "endsWith s suffix =
     (length suffix \<le> length s \<and> drop (length s - length suffix) s = suffix)"

definition is_space :: "char \<Rightarrow> bool" where
  "is_space c = (c \<in> set [CHR '' '', CHR 0x09, CHR 0x0A, CHR 0x0B, CHR 0x0C, CHR 0x0D])"

definition digit_value :: "nat \<Rightarrow> char \<Rightarrow> nat option" where
  "digit_value radix c =
     (case index_of (char_toLowerCase c) ''0123456789abcdefghijklmnopqrstuvwxyz'' of
        None \<Rightarrow> None
      | Some d \<Rightarrow> if d < radix then Some d else None)"

definition is_digit :: "nat \<Rightarrow> char \<Rightarrow> bool" where
  "is_digit radix c = (digit_value radix c \<noteq> None)"

definition digit_step :: "nat \<Rightarrow> nat \<Rightarrow> char \<Rightarrow> nat" where
  "digit_step radix acc c =
     acc * radix + (case digit_value radix c of None \<Rightarrow> 0 | Some d \<Rightarrow> d)"

text \<open>
  \<open>parseInt(s)\<close> without a radix: leading white space is skipped, an optional sign is
  read, a \<open>0x\<close> prefix selects radix 16, and the longest prefix of digits is converted.
  \<open>None\<close> stands for the result \<open>NaN\<close>. The value is the exact one; JavaScript gives
  the same for every safe integer.
\<close>

definition parseInt :: "string \<Rightarrow> int option" where
  "parseInt s =
     (let s1 = dropWhile is_space s;
          sgn = (if take 1 s1 = ''-'' then (- 1 :: int) else 1);
          s2 = (if take 1 s1 = ''-'' \<or> take 1 s1 = ''+'' then drop 1 s1 else s1);
          hex = (take 2 s2 = ''0x'' \<or> take 2 s2 = ''0X'');
          radix = (if hex then 16 else 10);
          s3 = (if hex then drop 2 s2 else s2);
          ds = takeWhile (is_digit radix) s3
      in if ds = [] then None else Some (sgn * int (foldl (digit_step radix) 0 ds)))"

subsection \<open>Cache keys\<close>

definition prefix :: string where
  "prefix = ''page''"

definition pad :: int where
  "pad = 2"

definition page_key :: "int \<Rightarrow> string" where
  "page_key number = prefix @ number_toString number"


subsection \<open>Arithmetic on doubles\<close>

text \<open>
  \<open>to_double x\<close> is the double nearest to \<open>x\<close>, a tie going to the even mantissa, for
  \<open>x\<close> within the range of the normal doubles: \<open>x\<close> lies between \<open>2^e\<close> and \<open>2^(e+1)\<close>,
  and is rounded to a multiple of \<open>2^(e-52)\<close>. The quotient and the product of two doubles
  in JavaScript are the exact quotient and product rounded in this way.
\<close>

function bit_length :: "int \<Rightarrow> int" where
  "bit_length n = (if n \<le> 0 then 0 else 1 + bit_length (n div 2))"
  by pat_completeness auto
termination
  by (relation "measure nat") auto

declare bit_length.simps [simp del]

definition pow2 :: "int \<Rightarrow> rat" where
  "pow2 e = (if 0 \<le> e then 2 ^ nat e else 1 / 2 ^ nat (- e))"

definition round_half_even :: "rat \<Rightarrow> int" where
  "round_half_even x =
     (let f = \<lfloor>x\<rfloor>;
          r = x - of_int f
      in if r < 1 / 2 then f
         else if 1 / 2 < r then f + 1
         else if even f then f else f + 1)"

definition to_double :: "rat \<Rightarrow> rat" where
  "to_double x =
     (if x = 0 then 0
      else
        (let a = \<bar>x\<bar>;
             (p, q) = quotient_of a;
             e0 = bit_length p - bit_length q;
             e = (if pow2 e0 \<le> a then e0 else e0 - 1);
             m = round_half_even (a * pow2 (52 - e))
         in sgn x * of_int m * pow2 (e - 52)))"

section \<open>The PDF player (\<open>plugins/pdfPlayer/plugin.js\<close>)\<close>

subsection \<open>Collaborators: the PDF library and the DOM\<close>

text \<open>A page object of the PDF library, given by the size of its viewport at scale 1
  (two doubles); page boxes have positive width and height. \<open>getViewport\<close> multiplies
  that box by the scale.\<close>

record pdf_page =
  page_width :: rat
  page_height :: rat

definition getViewport :: "pdf_page \<Rightarrow> rat \<Rightarrow> rat \<times> rat" where
  "getViewport page scale =
     (to_double (page_width page * scale), to_double (page_height page * scale))"

record pdf_document =
  numPages :: int

text \<open>A canvas element: its \<open>id\<close> attribute (empty when unset), its size in whole
  pixels (an assigned size is truncated to an integer), and the page whose render task
  drew on it.\<close>

record canvas_element =
  elem_id :: string
  width :: nat
  height :: nat
  painted :: "pdf_page option"

text \<open>An item, with the fields the player reads and its declared media type, which the
  host hands to \<open>canPlayMediaType\<close>.\<close>

record media_item =
  Id :: string
  ServerId :: string
  Path :: "string option"
  MediaType :: "string option"

record options =
  items :: "media_item list"
  startPositionTicks :: int

subsection \<open>The player and the part of the page it acts on\<close>

text \<open>
  The fields of the player instance (\<open>progress\<close> to \<open>item\<close>), followed by the state of
  its collaborators: every canvas element created so far (a canvas is referred to by its
  index in \<open>canvases\<close>), the canvas that \<open>document.getElementById('canvas')\<close> finds, the
  dialog, the bound listeners, the loading indicator, the window size, the promises
  returned by \<open>play\<close>, and the calls made to the PDF library and to \<open>events.trigger\<close>.
  \<open>pages\<close> is the cache object, with its keys in insertion order.
\<close>

record player =
  progress :: int
  loaded :: bool
  cancellationToken :: bool
  pages :: "(string \<times> nat) list"
  book :: "pdf_document option"
  mediaElement :: bool
  item :: "media_item option"
  canvases :: "canvas_element list"
  dom_canvas :: "nat option"
  dialog_in_dom :: bool
  dialog_open :: bool
  media_events_bound :: bool
  document_events_bound :: bool
  loading_shown :: bool
  innerWidth :: rat
  innerHeight :: rat
  promises :: "promise_state list"
  getDocument_calls :: nat
  getPage_calls :: "(nat \<times> int option) list"
  timeupdates :: nat

text \<open>A player right after its constructor, in a document without a player dialog. The
  fields the constructor leaves unassigned hold the values \<open>play\<close> gives them.\<close>

definition new_player :: "rat \<Rightarrow> rat \<Rightarrow> player" where
  "new_player w h =
     \<lparr>progress = 0, loaded = False, cancellationToken = False, pages = [], book = None,
      mediaElement = False, item = None, canvases = [], dom_canvas = None,
      dialog_in_dom = False, dialog_open = False, media_events_bound = False,
      document_events_bound = False, loading_shown = False, innerWidth = w,
      innerHeight = h, promises = [], getDocument_calls = 0, getPage_calls = [],
      timeupdates = 0\<rparr>"

definition new_canvas :: canvas_element where
  "new_canvas = \<lparr>elem_id = [], width = 300, height = 150, painted = None\<rparr>"

definition createCanvas :: "player \<Rightarrow> nat \<times> player" where
  "createCanvas s = (length (canvases s), s\<lparr>canvases := canvases s @ [new_canvas]\<rparr>)"

subsection \<open>Simple accessors\<close>

definition currentItem :: "player \<Rightarrow> media_item option" where
  "currentItem s = item s"

definition currentTime :: "player \<Rightarrow> int" where
  "currentTime s = progress s"

definition duration :: "player \<Rightarrow> int" where
  "duration s = (case book s of None \<Rightarrow> 0 | Some b \<Rightarrow> numPages b)"

subsection \<open>Dialog and listeners\<close>

definition bindEvents :: "player \<Rightarrow> player \<times> unit outcome" where
  "bindEvents s =
     (if \<not> mediaElement s then (s, Threw TypeError)
      else (s\<lparr>media_events_bound := True, document_events_bound := True\<rparr>, Returned ()))"

definition unbindEvents :: "player \<Rightarrow> player" where
  "unbindEvents s =
     (let s1 = (if mediaElement s then s\<lparr>media_events_bound := False\<rparr> else s)
      in s1\<lparr>document_events_bound := False\<rparr>)"

definition createMediaElement :: "player \<Rightarrow> player" where
  "createMediaElement s =
     (if mediaElement s then s
      else
        (let s1 =
           (if dialog_in_dom s then s
            else s\<lparr>canvases := canvases s @ [new_canvas\<lparr>elem_id := ''canvas''\<rparr>],
                   dom_canvas := Some (length (canvases s)),
                   dialog_in_dom := True, dialog_open := True\<rparr>)
         in s1\<lparr>mediaElement := True\<rparr>))"

definition stop :: "player \<Rightarrow> player" where
  "stop s =
     (let s1 = unbindEvents s;
          s2 = (if mediaElement s1 then s1\<lparr>dialog_open := False, mediaElement := False\<rparr>
                else s1)
      in s2\<lparr>loading_shown := False, cancellationToken := True\<rparr>)"

definition onDialogClosed :: "player \<Rightarrow> player" where
  "onDialogClosed s = stop s"

subsection \<open>Rendering a page\<close>

text \<open>\<open>renderPage\<close> asks the document for the page; the request is recorded with the
  canvas it is for. The callback passed to \<open>then\<close> is \<open>getPage_then\<close>, and the callback
  on the render task's promise is \<open>render_then\<close>.\<close>

definition renderPage :: "player \<Rightarrow> nat \<Rightarrow> int option \<Rightarrow> player \<times> unit outcome" where
  "renderPage s canvas number =
     (case book s of
        None \<Rightarrow> (s, Threw TypeError)
      | Some b \<Rightarrow> (s\<lparr>getPage_calls := getPage_calls s @ [(canvas, number)]\<rparr>, Returned ()))"

definition getPage_then :: "player \<Rightarrow> nat \<Rightarrow> pdf_page \<Rightarrow> player" where
  "getPage_then s canvas page =
     (let s1 = s\<lparr>timeupdates := timeupdates s + 1\<rparr>;
          original = getViewport page 1;
          widthRatio = to_double (innerWidth s1 / fst original);
          heightRatio = to_double (innerHeight s1 / snd original);
          scale = min heightRatio widthRatio;
          viewport = getViewport page scale
      in s1\<lparr>canvases := (canvases s1)[canvas := (canvases s1 ! canvas)
               \<lparr>width := nat \<lfloor>fst viewport\<rfloor>, height := nat \<lfloor>snd viewport\<rfloor>,
                painted := Some page\<rparr>]\<rparr>)"

definition render_then :: "player \<Rightarrow> player" where
  "render_then s = s\<lparr>loading_shown := False\<rparr>"

subsection \<open>The page cache window\<close>

definition replaceCanvas :: "player \<Rightarrow> nat \<Rightarrow> player \<times> unit outcome" where
  "replaceCanvas s canvas =
     (let old = dom_canvas s;
          s1 = s\<lparr>canvases := (canvases s)[canvas := (canvases s ! canvas)
                 \<lparr>elem_id := ''canvas''\<rparr>]\<rparr>
      in case old of
           None \<Rightarrow> (s1, Threw TypeError)
         | Some _ \<Rightarrow> (s1\<lparr>dom_canvas := Some canvas\<rparr>, Returned ()))"

text \<open>One round of the padding loop, for \<open>i\<close> from 1 to \<open>pad\<close>.\<close>

definition pad_step :: "int \<Rightarrow> int \<Rightarrow> string list \<Rightarrow> int \<Rightarrow> string list" where
  "pad_step number dur ps i =
     (let ps1 = (if number - i > 0 then ps @ [page_key (number - i)] else ps)
      in if number + i < dur then ps1 @ [page_key (number + i)] else ps1)"

definition cached_pages :: "int \<Rightarrow> int \<Rightarrow> string list" where
  "cached_pages number dur = foldl (pad_step number dur) [page_key number] [1..pad]"

text \<open>The loop that loads the pages missing from the cache.\<close>

fun load_missing :: "player \<Rightarrow> string list \<Rightarrow> player \<times> unit outcome" where
  "load_missing s [] = (s, Returned ())"
| "load_missing s (page # rest) =
     (case map_of (pages s) page of
        Some _ \<Rightarrow> load_missing s rest
      | None \<Rightarrow>
          (let (canvas, s1) = createCanvas s;
               s2 = s1\<lparr>pages := pages s1 @ [(page, canvas)]\<rparr>
           in case renderPage s2 canvas (parseInt (substr page 4)) of
                (s3, Returned _) \<Rightarrow> load_missing s3 rest
              | r \<Rightarrow> r))"

definition delete_key :: "string \<Rightarrow> (string \<times> nat) list \<Rightarrow> (string \<times> nat) list" where
  "delete_key k m = filter (\<lambda>(k', _). k' \<noteq> k) m"

text \<open>The loop over the keys of the cache that deletes the pages outside the window.\<close>

fun evict :: "string list \<Rightarrow> (string \<times> nat) list \<Rightarrow> string list \<Rightarrow> (string \<times> nat) list" where
  "evict keep m [] = m"
| "evict keep m (page # rest) =
     evict keep (if page \<in> set keep then m else delete_key page m) rest"

text \<open>
  \<open>loadPage\<close>. The sums and differences of the padding loop are exact when
  \<open>number - pad\<close> and \<open>number + pad\<close> are safe integers; for any other \<open>number\<close>
  JavaScript rounds them, and the call is outside the model.
\<close>

definition loadPage :: "player \<Rightarrow> int \<Rightarrow> player \<times> unit outcome" where
  "loadPage s number =
     (if \<not> (safe_integer (number - pad) \<and> safe_integer (number + pad)) then (s, OutsideModel)
      else
        (let ps = cached_pages number (duration s)
         in case load_missing s ps of
              (s1, Returned _) \<Rightarrow>
                (case map_of (pages s1) (page_key number) of
                   None \<Rightarrow> (s1, Threw TypeError)
                 | Some canvas \<Rightarrow>
                     (case replaceCanvas s1 canvas of
                        (s2, Returned _) \<Rightarrow>
                          (s2\<lparr>pages := evict ps (pages s2) (map fst (pages s2))\<rparr>, Returned ())
                      | r \<Rightarrow> r))
            | r \<Rightarrow> r))"

subsection \<open>Navigation\<close>

definition "next" :: "player \<Rightarrow> player \<times> unit outcome" where
  "next s =
     (if progress s = duration s - 1 then (s, Returned ())
      else case loadPage s (progress s + 2) of
             (s1, Returned _) \<Rightarrow> (s1\<lparr>progress := progress s1 + 1\<rparr>, Returned ())
           | r \<Rightarrow> r)"

definition previous :: "player \<Rightarrow> player \<times> unit outcome" where
  "previous s =
     (if progress s = 0 then (s, Returned ())
      else case loadPage s (progress s) of
             (s1, Returned _) \<Rightarrow> (s1\<lparr>progress := progress s1 - 1\<rparr>, Returned ())
           | r \<Rightarrow> r)"

definition onWindowKeyUp :: "player \<Rightarrow> string \<Rightarrow> player \<times> unit outcome" where
  "onWindowKeyUp s key =
     (if \<not> loaded s then (s, Returned ())
      else if key = ''l'' \<or> key = ''ArrowRight'' \<or> key = ''Right'' then next s
      else if key = ''j'' \<or> key = ''ArrowLeft'' \<or> key = ''Left'' then previous s
      else if key = ''Escape'' then (stop s, Returned ())
      else (s, Returned ()))"

text \<open>The touch event is given by the \<open>clientX\<close> of its touches (\<open>None\<close>: no \<open>touches\<close>).\<close>

definition onTouchStart :: "player \<Rightarrow> rat list option \<Rightarrow> player \<times> unit outcome" where
  "onTouchStart s touches =
     (case touches of
        None \<Rightarrow> (s, Returned ())
      | Some ts \<Rightarrow>
          (if \<not> loaded s \<or> ts = [] then (s, Returned ())
           else if hd ts < innerWidth s / 2 then previous s
           else next s))"

subsection \<open>Starting playback\<close>

text \<open>
  \<open>setCurrentSrc\<close> returns a new promise (its index in \<open>promises\<close>) after asking for the
  PDF library. \<open>import_then\<close> is the callback that runs when the library is there; it
  starts the download. \<open>document_then\<close> is the callback on the download's promise, with
  the promise to resolve and the play options in its closure. No callback is registered
  for a rejection of either promise.
\<close>

definition setCurrentSrc :: "player \<Rightarrow> options \<Rightarrow> player \<times> nat outcome" where
  "setCurrentSrc s opts =
     (case items opts of
        [] \<Rightarrow> (s\<lparr>item := None\<rparr>, Threw TypeError)
      | it # _ \<Rightarrow>
          (s\<lparr>item := Some it, promises := promises s @ [Pending]\<rparr>,
           Returned (length (promises s))))"

definition play :: "player \<Rightarrow> options \<Rightarrow> player \<times> nat outcome" where
  "play s opts =
     (let s1 = s\<lparr>progress := 0, loaded := False, cancellationToken := False, pages := []\<rparr>;
          s2 = s1\<lparr>loading_shown := True\<rparr>;
          s3 = createMediaElement s2
      in setCurrentSrc s3 opts)"

definition import_then :: "player \<Rightarrow> player \<times> unit outcome" where
  "import_then s =
     (case bindEvents s of
        (s1, Returned _) \<Rightarrow> (s1\<lparr>getDocument_calls := getDocument_calls s1 + 1\<rparr>, Returned ())
      | r \<Rightarrow> r)"

definition document_then :: "player \<Rightarrow> nat \<Rightarrow> options \<Rightarrow> pdf_document \<Rightarrow> player \<times> unit outcome" where
  "document_then s promise opts b =
     (if cancellationToken s then (s, Returned ())
      else
        (let s1 = s\<lparr>book := Some b, loaded := True\<rparr>
         in if \<not> 10000 dvd startPositionTicks opts then (s1, OutsideModel)
            else
              (let percentageTicks = startPositionTicks opts div 10000
               in case (if percentageTicks \<noteq> 0
                        then (case loadPage s1 percentageTicks of
                                (s2, Returned _) \<Rightarrow>
                                  (s2\<lparr>progress := percentageTicks\<rparr>, Returned ())
                              | r \<Rightarrow> r)
                        else loadPage s1 1) of
                    (s3, Returned _) \<Rightarrow>
                      (s3\<lparr>promises := (promises s3)[promise := Resolved]\<rparr>, Returned ())
                  | r \<Rightarrow> r)))"

text \<open>Settling the promises the player waits on. Each \<open>then\<close> in the source passes a
  single callback, so a rejection runs no code of the player.\<close>

definition settle_import :: "player \<Rightarrow> unit settled \<Rightarrow> player \<times> unit outcome" where
  "settle_import s r = (case r of Fulfilled _ \<Rightarrow> import_then s | Rejected \<Rightarrow> (s, Returned ()))"

definition settle_getDocument ::
  "player \<Rightarrow> nat \<Rightarrow> options \<Rightarrow> pdf_document settled \<Rightarrow> player \<times> unit outcome" where
  "settle_getDocument s promise opts r =
     (case r of
        Fulfilled b \<Rightarrow> document_then s promise opts b
      | Rejected \<Rightarrow> (s, Returned ()))"

definition settle_getPage :: "player \<Rightarrow> nat \<Rightarrow> pdf_page settled \<Rightarrow> player" where
  "settle_getPage s canvas r =
     (case r of Fulfilled page \<Rightarrow> getPage_then s canvas page | Rejected \<Rightarrow> s)"

definition settle_render :: "player \<Rightarrow> unit settled \<Rightarrow> player" where
  "settle_render s r = (case r of Fulfilled _ \<Rightarrow> render_then s | Rejected \<Rightarrow> s)"

subsection \<open>Applicability\<close>

definition canPlayMediaType :: "string option \<Rightarrow> bool" where
  "canPlayMediaType mediaType =
     (toLowerCase (case mediaType of None \<Rightarrow> [] | Some t \<Rightarrow> t) = ''book'')"

definition canPlayItem :: "media_item \<Rightarrow> bool" where
  "canPlayItem it =
     (case Path it of
        None \<Rightarrow> False
      | Some p \<Rightarrow> if p \<noteq> [] \<and> endsWith p ''pdf'' then True else False)"

subsection \<open>What is on screen\<close>

text \<open>The page number whose rendering was requested for the canvas now in the document.\<close>

definition displayed_page :: "player \<Rightarrow> int option" where
  "displayed_page s =
     (case dom_canvas s of
        None \<Rightarrow> None
      | Some c \<Rightarrow> (case map_of (getPage_calls s) c of None \<Rightarrow> None | Some n \<Rightarrow> n))"

definition cache_keys :: "player \<Rightarrow> string set" where
  "cache_keys s = set (map fst (pages s))"


section \<open>The collapsible panel (\<open>elements/emby-collapse/emby-collapse.js\<close>)\<close>

text \<open>A \<open>classList\<close> is the list of the element's class names, without repetition.\<close>

definition classList_contains :: "string list \<Rightarrow> string \<Rightarrow> bool" where
  "classList_contains cs c = (c \<in> set cs)"

definition classList_add :: "string list \<Rightarrow> string \<Rightarrow> string list" where
  "classList_add cs c = (if c \<in> set cs then cs else cs @ [c])"

definition classList_remove :: "string list \<Rightarrow> string \<Rightarrow> string list" where
  "classList_remove cs c = filter (\<lambda>x. x \<noteq> c) cs"

text \<open>The values the code gives \<open>style.height\<close>: \<open>'auto'\<close>, a pixel count, and \<open>'0'\<close>.\<close>

datatype style_height = Unset | Auto | Px nat | Zero

text \<open>The first descendant with class \<open>collapseContent\<close>, with its \<open>expanded\<close> property
  (unset reads as false).\<close>

record collapse_content =
  content_classList :: "string list"
  expanded :: bool
  content_height :: style_height

text \<open>A toggle button made from the inserted markup: the markup as text, the class list
  of its icon, and whether \<open>onButtonClick\<close> is bound to its click event. The model covers
  titles that contain no markup of their own.\<close>

record toggle_button =
  html :: string
  icon_classList :: "string list"
  click_bound :: bool

text \<open>The two callbacks handed to \<open>setTimeout\<close>.\<close>

datatype timeout = AfterSlideDown | AfterSlideUp

text \<open>The element: its class list, its \<open>title\<close> and \<open>data-expanded\<close> attributes, its
  collapse content if it has one, the toggle buttons at its beginning (first one first),
  and the pending timeouts.\<close>

record collapse_element =
  classList :: "string list"
  title :: "string option"
  data_expanded :: "string option"
  collapseContent :: "collapse_content option"
  buttons :: "toggle_button list"
  timeouts :: "timeout list"

text \<open>Both slide functions take the \<open>offsetHeight\<close> the browser reports for the content,
  and the index of the button among the element's toggle buttons.\<close>

definition update_icon :: "collapse_element \<Rightarrow> nat \<Rightarrow> (string list \<Rightarrow> string list) \<Rightarrow> collapse_element" where
  "update_icon e button f =
     e\<lparr>buttons := (buttons e)[button := (buttons e ! button)
          \<lparr>icon_classList := f (icon_classList (buttons e ! button))\<rparr>]\<rparr>"

definition slideDownToShow ::
  "collapse_element \<Rightarrow> nat \<Rightarrow> collapse_content \<Rightarrow> nat \<Rightarrow> collapse_element" where
  "slideDownToShow e button elem offsetHeight =
     (let elem1 = elem\<lparr>content_classList := classList_remove (content_classList elem) ''hide''\<rparr>;
          elem2 = elem1\<lparr>content_classList := classList_add (content_classList elem1) ''expanded''\<rparr>;
          elem3 = elem2\<lparr>content_height := Auto\<rparr>;
          height = Px offsetHeight;
          elem4 = elem3\<lparr>content_height := Zero\<rparr>;
          elem5 = elem4\<lparr>content_height := height\<rparr>;
          e1 = e\<lparr>collapseContent := Some elem5, timeouts := timeouts e @ [AfterSlideDown]\<rparr>
      in update_icon e1 button (\<lambda>cs. classList_add cs ''emby-collapse-expandIconExpanded''))"

definition slideUpToHide ::
  "collapse_element \<Rightarrow> nat \<Rightarrow> collapse_content \<Rightarrow> nat \<Rightarrow> collapse_element" where
  "slideUpToHide e button elem offsetHeight =
     (let elem1 = elem\<lparr>content_height := Px offsetHeight\<rparr>;
          elem2 = elem1\<lparr>content_classList := classList_remove (content_classList elem1) ''expanded''\<rparr>;
          elem3 = elem2\<lparr>content_height := Zero\<rparr>;
          e1 = e\<lparr>collapseContent := Some elem3, timeouts := timeouts e @ [AfterSlideUp]\<rparr>
      in update_icon e1 button (\<lambda>cs. classList_remove cs ''emby-collapse-expandIconExpanded''))"

definition run_timeout :: "timeout \<Rightarrow> collapse_content \<Rightarrow> collapse_content" where
  "run_timeout t elem =
     (let elem1 =
        (if classList_contains (content_classList elem) ''expanded''
         then elem\<lparr>content_classList := classList_remove (content_classList elem) ''hide''\<rparr>
         else elem\<lparr>content_classList := classList_add (content_classList elem) ''hide''\<rparr>)
      in case t of
           AfterSlideDown \<Rightarrow> elem1\<lparr>content_height := Auto\<rparr>
         | AfterSlideUp \<Rightarrow> elem1)"

definition onButtonClick :: "collapse_element \<Rightarrow> nat \<Rightarrow> nat \<Rightarrow> collapse_element \<times> unit outcome" where
  "onButtonClick e button offsetHeight =
     (case collapseContent e of
        None \<Rightarrow> (e, Threw TypeError)
      | Some content \<Rightarrow>
          (if expanded content
           then (slideUpToHide e button (content\<lparr>expanded := False\<rparr>) offsetHeight, Returned ())
           else (slideDownToShow e button (content\<lparr>expanded := True\<rparr>) offsetHeight, Returned ())))"

definition button_html :: "string option \<Rightarrow> string" where
  "button_html t =
     (let title = (case t of None \<Rightarrow> ''null'' | Some x \<Rightarrow> x)
      in ''<button is=\"emby-button\" type=\"button\" on-click=\"toggleExpand\" id=\"expandButton\" class=\"emby-collapsible-button iconRight\"><h3 class=\"emby-collapsible-title\" title=\"''
         @ title @ ''\">'' @ title
         @ ''</h3><span class=\"material-icons emby-collapse-expandIcon expand_more\"></span></button>'')"

definition attachedCallback :: "collapse_element \<Rightarrow> nat \<Rightarrow> collapse_element \<times> unit outcome" where
  "attachedCallback e offsetHeight =
     (if classList_contains (classList e) ''emby-collapse'' then (e, Returned ())
      else
        (let e1 = e\<lparr>classList := classList_add (classList e) ''emby-collapse''\<rparr>;
             e2 = (case collapseContent e1 of
                     None \<Rightarrow> e1
                   | Some content \<Rightarrow>
                       e1\<lparr>collapseContent := Some (content
                            \<lparr>content_classList := classList_add (content_classList content) ''hide''\<rparr>)\<rparr>);
             html = button_html (title e2);
             e3 = e2\<lparr>buttons :=
                      \<lparr>html = html,
                       icon_classList = [''material-icons'', ''emby-collapse-expandIcon'', ''expand_more''],
                       click_bound = False\<rparr> # buttons e2\<rparr>;
             button = 0;
             e4 = e3\<lparr>buttons := (buttons e3)[button := (buttons e3 ! button)\<lparr>click_bound := True\<rparr>]\<rparr>
         in if data_expanded e4 = Some ''true'' then onButtonClick e4 button offsetHeight
            else (e4, Returned ())))"



section \<open>The event loop\<close>

text \<open>
  Everything that can happen to a player, one event at a time on a single thread: calls
  from the host, DOM events (delivered only while the listener is bound), and the
  settling of a promise the player waits on. A settling event carries what the callback
  has in its closure: the promise to resolve and the play options for the download, the
  canvas for a page request.
\<close>

datatype event =
    Play options
  | Stop
  | Next
  | Previous
  | KeyUp string
  | TouchStart "rat list option"
  | DialogClosed
  | ImportSettled "unit settled"
  | DocumentSettled nat options "pdf_document settled"
  | PageSettled nat "pdf_page settled"
  | RenderSettled "unit settled"

definition fire :: "player \<Rightarrow> event \<Rightarrow> player" where
  "fire s e =
     (case e of
        Play opts \<Rightarrow> fst (play s opts)
      | Stop \<Rightarrow> stop s
      | Next \<Rightarrow> fst (next s)
      | Previous \<Rightarrow> fst (previous s)
      | KeyUp key \<Rightarrow> if document_events_bound s then fst (onWindowKeyUp s key) else s
      | TouchStart touches \<Rightarrow> if document_events_bound s then fst (onTouchStart s touches) else s
      | DialogClosed \<Rightarrow> if media_events_bound s then onDialogClosed s else s
      | ImportSettled r \<Rightarrow> fst (settle_import s r)
      | DocumentSettled promise opts r \<Rightarrow> fst (settle_getDocument s promise opts r)
      | PageSettled canvas r \<Rightarrow> settle_getPage s canvas r
      | RenderSettled r \<Rightarrow> settle_render s r)"


section \<open>Sample runs\<close>

text \<open>A player started on a document of \<open>n\<close> pages at a start position, in a window of
  1200 by 800: \<open>play\<close>, then the library arrives, then the download completes.\<close>

definition sample_options :: "int \<Rightarrow> options" where
  "sample_options ticks =
     \<lparr>items = [\<lparr>Id = ''1'', ServerId = ''s'', Path = Some ''book.pdf'',
                MediaType = Some ''Book''\<rparr>],
      startPositionTicks = ticks\<rparr>"

definition started :: "int \<Rightarrow> int \<Rightarrow> player \<times> unit outcome" where
  "started n ticks =
     (let opts = sample_options ticks;
          (s1, _) = play (new_player 1200 800) opts;
          (s2, _) = settle_import s1 (Fulfilled ())
      in settle_getDocument s2 0 opts (Fulfilled \<lparr>numPages = n\<rparr>))"


text \<open>A panel as written in a page, before it is attached: expanded at start, with a
  collapse content.\<close>

definition sample_panel :: collapse_element where
  "sample_panel =
     \<lparr>classList = [''verticalSection''], title = Some ''Advanced'',
      data_expanded = Some ''true'',
      collapseContent = Some \<lparr>content_classList = [''collapseContent''], expanded = False,
                              content_height = Unset\<rparr>,
      buttons = [], timeouts = []\<rparr>"

section \<open>Notions of the specification\<close>

text \<open>
  Stated from the words of the specification, "path ends in a PDF extension": the
  extension of a path is what follows the last dot in its last segment, and it is a PDF
  extension when it reads \<open>pdf\<close> in lower case.
\<close>

definition spec_file_extension :: "string \<Rightarrow> string option" where
  "spec_file_extension p =
     (let name = rev (takeWhile (\<lambda>c. c \<noteq> CHR ''/'') (rev p))
      in if CHR ''.'' \<in> set name
         then Some (rev (takeWhile (\<lambda>c. c \<noteq> CHR ''.'') (rev name)))
         else None)"

definition spec_ends_in_pdf_extension :: "string \<Rightarrow> bool" where
  "spec_ends_in_pdf_extension p =
     (case spec_file_extension p of None \<Rightarrow> False | Some e \<Rightarrow> toLowerCase e = ''pdf'')"

text \<open>A character of the ASCII range: its eighth bit is not set.\<close>

definition ascii :: "char \<Rightarrow> bool" where
  "ascii c = (\<not> digit7 c)"

section \<open>Notions used in the proofs\<close>

text \<open>The page numbers behind the keys that the padding loop builds, in its order.\<close>

definition window :: "int \<Rightarrow> int \<Rightarrow> int list" where
  "window number dur =
     [number] @ (if number - 1 > 0 then [number - 1] else [])
              @ (if number + 1 < dur then [number + 1] else [])
              @ (if number - 2 > 0 then [number - 2] else [])
              @ (if number + 2 < dur then [number + 2] else [])"


text \<open>One round of the loading loop on a key that is not cached, with a document loaded.\<close>

definition add_page :: "player \<Rightarrow> string \<Rightarrow> player" where
  "add_page s p =
     s\<lparr>canvases := canvases s @ [new_canvas],
       pages := pages s @ [(p, length (canvases s))],
       getPage_calls := getPage_calls s @ [(length (canvases s), parseInt (substr p 4))]\<rparr>"






section \<open>Key construction and key parsing\<close>

lemma lt10_cases:
  "(d::nat) < 10 \<Longrightarrow>
     d = 0 \<or> d = 1 \<or> d = 2 \<or> d = 3 \<or> d = 4 \<or> d = 5 \<or> d = 6 \<or> d = 7 \<or> d = 8 \<or> d = 9"
  by arith

lemma digit_value_digit_char:
  "d < 10 \<Longrightarrow> digit_value 10 (digit_char d) = Some d"
  by (drule lt10_cases, elim disjE)
     (simp_all add: digit_value_def digit_char_def char_toLowerCase_def)

lemma digit_char_cases:
  "d < 10 \<Longrightarrow> digit_char d \<in> set ''0123456789''"
  by (drule lt10_cases, elim disjE) (simp_all add: digit_char_def)

lemma digits_all_digits: "0 \<le> n \<Longrightarrow> \<forall>c \<in> set (digits n). is_digit 10 c"
proof (induction n rule: digits.induct)
  case (1 n)
  show ?case
  proof (cases "n < 10")
    case True
    with "1.prems" have "nat n < 10" by simp
    with True show ?thesis
      by (simp add: digits.simps [of n] is_digit_def digit_value_digit_char)
  next
    case False
    then have "nat (n mod 10) < 10" "0 \<le> n div 10" by simp_all
    with False "1.IH" show ?thesis
      by (simp add: digits.simps [of n] is_digit_def digit_value_digit_char)
  qed
qed

lemma digit_step_digit_char: "d < 10 \<Longrightarrow> digit_step 10 a (digit_char d) = a * 10 + d"
  by (simp add: digit_step_def digit_value_digit_char)

lemma digits_value: "0 \<le> n \<Longrightarrow> int (foldl (digit_step 10) 0 (digits n)) = n"
proof (induction n rule: digits.induct)
  case (1 n)
  show ?case
  proof (cases "n < 10")
    case True
    with "1.prems" have "nat n < 10" by simp
    with True "1.prems" show ?thesis
      by (simp add: digits.simps [of n] digit_step_digit_char)
  next
    case False
    then have m: "nat (n mod 10) < 10" and d: "0 \<le> n div 10" by simp_all
    from "1.IH" [OF False d] have "int (foldl (digit_step 10) 0 (digits (n div 10))) = n div 10" .
    with False m show ?thesis
      by (simp add: digits.simps [of n] digit_step_digit_char)
  qed
qed

lemma digits_nonempty: "digits n \<noteq> []"
  by (simp add: digits.simps [of n])

lemma digits_in_chars: "0 \<le> n \<Longrightarrow> set (digits n) \<subseteq> set ''0123456789''"
proof (induction n rule: digits.induct)
  case (1 n)
  show ?case
  proof (cases "n < 10")
    case True
    with "1.prems" have "nat n < 10" by simp
    from digit_char_cases [OF this] True show ?thesis
      by (simp add: digits.simps [of n])
  next
    case False
    then have m: "nat (n mod 10) < 10" and d: "0 \<le> n div 10" by simp_all
    from "1.IH" [OF False d] digit_char_cases [OF m] False show ?thesis
      by (simp add: digits.simps [of n])
  qed
qed

lemma takeWhile_digits: "0 \<le> n \<Longrightarrow> takeWhile (is_digit 10) (digits n) = digits n"
  using digits_all_digits [of n] by (simp add: takeWhile_eq_all_conv)

lemma digits_Cons: "0 \<le> n \<Longrightarrow> \<exists>c cs. digits n = c # cs \<and> c \<in> set ''0123456789''"
proof -
  assume n: "0 \<le> n"
  obtain c cs where cs: "digits n = c # cs"
    using digits_nonempty [of n] by (cases "digits n") auto
  then have "c \<in> set ''0123456789''"
    using digits_in_chars [OF n] by auto
  with cs show ?thesis by blast
qed

lemma digits_not_hex:
  "0 \<le> n \<Longrightarrow> take 2 (digits n) \<noteq> ''0x'' \<and> take 2 (digits n) \<noteq> ''0X''"
proof -
  assume n: "0 \<le> n"
  have "CHR ''x'' \<notin> set (digits n)" "CHR ''X'' \<notin> set (digits n)"
    using digits_in_chars [OF n] by auto
  moreover have "set (take 2 (digits n)) \<subseteq> set (digits n)"
    by (rule set_take_subset)
  ultimately show ?thesis by auto
qed

lemma parseInt_digits: "0 \<le> n \<Longrightarrow> parseInt (digits n) = Some n"
proof -
  assume n: "0 \<le> n"
  obtain c cs where cs: "digits n = c # cs" and c: "c \<in> set ''0123456789''"
    using digits_Cons [OF n] by blast
  have nospace: "dropWhile is_space (digits n) = digits n"
    using c cs by (auto simp: is_space_def)
  have nosign: "take 1 (digits n) \<noteq> ''-''" "take 1 (digits n) \<noteq> ''+''"
    using c cs by auto
  have nohex: "\<not> (take 2 (digits n) = ''0x'' \<or> take 2 (digits n) = ''0X'')"
    using digits_not_hex [OF n] by simp
  show ?thesis
    unfolding parseInt_def Let_def nospace
    by (simp only: nosign nohex if_False takeWhile_digits [OF n] digits_value [OF n] simp_thms)
       (simp add: digits_nonempty)
qed

lemma parseInt_minus_digits: "0 \<le> n \<Longrightarrow> parseInt (CHR ''-'' # digits n) = Some (- n)"
proof -
  assume n: "0 \<le> n"
  have nospace: "dropWhile is_space (CHR ''-'' # digits n) = CHR ''-'' # digits n"
    by (simp add: is_space_def)
  have sign: "take 1 (CHR ''-'' # digits n) = ''-''" "drop 1 (CHR ''-'' # digits n) = digits n"
    by simp_all
  have nohex: "\<not> (take 2 (digits n) = ''0x'' \<or> take 2 (digits n) = ''0X'')"
    using digits_not_hex [OF n] by simp
  show ?thesis
    unfolding parseInt_def Let_def nospace
    by (simp only: sign nohex if_True if_False takeWhile_digits [OF n] digits_value [OF n] simp_thms)
       (simp add: digits_nonempty)
qed

lemma parseInt_number_toString:
  "\<bar>n\<bar> < 10 ^ 21 \<Longrightarrow> parseInt (number_toString n) = Some n"
  by (cases "n < 0")
     (simp_all add: number_toString_def Let_def parseInt_digits parseInt_minus_digits)

lemma safe_integer_below: "safe_integer n \<Longrightarrow> \<bar>n\<bar> < 10 ^ 21"
  unfolding safe_integer_def by simp linarith

lemma substr_page_key: "substr (page_key n) 4 = number_toString n"
  by (simp add: substr_def page_key_def prefix_def)

lemma parseInt_page_key: "safe_integer n \<Longrightarrow> parseInt (substr (page_key n) 4) = Some n"
  using parseInt_number_toString [OF safe_integer_below] by (simp add: substr_page_key)

lemma page_key_inj:
  "safe_integer a \<Longrightarrow> safe_integer b \<Longrightarrow> page_key a = page_key b \<Longrightarrow> a = b"
proof -
  assume a: "safe_integer a" and b: "safe_integer b" and "page_key a = page_key b"
  then have "parseInt (substr (page_key a) 4) = parseInt (substr (page_key b) 4)" by simp
  then show "a = b" by (simp add: parseInt_page_key a b)
qed

text \<open>
  C9, as amended. For every positive page number \<open>n\<close> below \<open>2^53\<close> (the safe integers),
  the key \<open>'page' + n\<close> parsed back with \<open>parseInt(key.substr(4))\<close> is \<open>n\<close> again; and
  when the loading loop meets such a key that is not cached, the page it asks the document
  for is exactly \<open>n\<close>.
\<close>

theorem page_key_round_trip:
  assumes "0 < n" and "n < 2 ^ 53"
  shows "parseInt (substr (page_key n) 4) = Some n \<and>
         (map_of (pages s) (page_key n) = None \<and> book s \<noteq> None \<longrightarrow>
            getPage_calls (fst (load_missing s [page_key n])) =
              getPage_calls s @ [(length (canvases s), Some n)])"
proof -
  from assms have "safe_integer n" by (simp add: safe_integer_def)
  then show ?thesis
    by (auto simp: parseInt_page_key createCanvas_def renderPage_def split: option.splits)
qed

theorem page_key_round_trip_witness:
  "(0::int) < 7 \<and> (7::int) < 2 ^ 53 \<and>
   parseInt (substr (page_key 7) 4) = Some 7 \<and>
   map_of (pages ((new_player 1200 800)\<lparr>book := Some \<lparr>numPages = 10\<rparr>\<rparr>)) (page_key 7) = None \<and>
   book ((new_player 1200 800)\<lparr>book := Some \<lparr>numPages = 10\<rparr>\<rparr>) \<noteq> None \<and>
   getPage_calls (fst (load_missing ((new_player 1200 800)\<lparr>book := Some \<lparr>numPages = 10\<rparr>\<rparr>)
      [page_key 7])) = [(0, Some 7)]"
proof -
  have a: "(0::int) < 7" "(7::int) < 2 ^ 53" by simp_all
  from page_key_round_trip [OF a, of "(new_player 1200 800)\<lparr>book := Some \<lparr>numPages = 10\<rparr>\<rparr>"]
  show ?thesis
    by (simp add: new_player_def createCanvas_def renderPage_def)
qed

text \<open>
  C9 as stated, for every positive integer, fails at \<open>10^21\<close>: the key is \<open>page1e+21\<close>, what
  follows its prefix parses to 1, and the loading loop asks the document for page 1.
\<close>

theorem page_key_round_trip_counterexample:
  "page_key 1000000000000000000000 = ''page1e+21'' \<and>
   parseInt (substr (page_key 1000000000000000000000) 4) = Some 1 \<and>
   parseInt (substr (page_key 1000000000000000000000) 4) \<noteq> Some 1000000000000000000000 \<and>
   getPage_calls (fst (load_missing ((new_player 1200 800)\<lparr>book := Some \<lparr>numPages = 10\<rparr>\<rparr>)
      [page_key 1000000000000000000000])) = [(0, Some 1)]"
  by code_simp


section \<open>The page cache window\<close>

lemma upto_pad: "[1..pad] = [1, 2]"
  by (simp add: pad_def upto.simps)

lemma cached_pages_window: "cached_pages number dur = map page_key (window number dur)"
  by (simp add: cached_pages_def upto_pad pad_step_def window_def)

lemma distinct_window: "distinct (window number dur)"
  by (simp add: window_def)

lemma window_safe:
  "safe_integer (number - pad) \<Longrightarrow> safe_integer (number + pad) \<Longrightarrow>
     \<forall>k \<in> set (window number dur). safe_integer k"
  by (auto simp: window_def safe_integer_def pad_def)

lemma distinct_cached_pages:
  assumes "safe_integer (number - pad)" and "safe_integer (number + pad)"
  shows "distinct (cached_pages number dur)"
proof -
  have "inj_on page_key (set (window number dur))"
    using window_safe [OF assms, of dur] by (auto simp: inj_on_def intro: page_key_inj)
  then show ?thesis
    by (simp add: cached_pages_window distinct_map distinct_window)
qed

lemma page_key_in_cached_pages: "page_key number \<in> set (cached_pages number dur)"
  by (simp add: cached_pages_window window_def)


lemma load_missing_Cons:
  "load_missing s (p # ps) =
     (if map_of (pages s) p \<noteq> None then load_missing s ps
      else if book s = None
        then (s\<lparr>canvases := canvases s @ [new_canvas],
                pages := pages s @ [(p, length (canvases s))]\<rparr>, Threw TypeError)
        else load_missing (add_page s p) ps)"
  by (auto simp: createCanvas_def renderPage_def add_page_def split: option.splits)

declare load_missing.simps(2) [simp del]

lemma load_missing_frame:
  "book (fst (load_missing s ps)) = book s \<and>
   promises (fst (load_missing s ps)) = promises s \<and>
   dom_canvas (fst (load_missing s ps)) = dom_canvas s"
proof (induction ps arbitrary: s)
  case Nil
  show ?case by simp
next
  case (Cons p ps)
  show ?case
    using Cons.IH [of s] Cons.IH [of "add_page s p"]
    by (simp add: load_missing_Cons add_page_def)
qed

lemma load_missing_cached:
  "\<forall>p \<in> set ps. map_of (pages s) p \<noteq> None \<Longrightarrow> load_missing s ps = (s, Returned ())"
  by (induction ps) (auto simp: load_missing_Cons)

lemma load_missing_returned:
  "load_missing s ps = (s', Returned ()) \<Longrightarrow>
     (\<forall>p \<in> set ps. map_of (pages s') p \<noteq> None) \<and>
     (\<forall>k v. map_of (pages s) k = Some v \<longrightarrow> map_of (pages s') k = Some v)"
proof (induction ps arbitrary: s)
  case Nil
  then show ?case by simp
next
  case (Cons p ps)
  show ?case
  proof (cases "map_of (pages s) p \<noteq> None")
    case True
    with Cons.prems have "load_missing s ps = (s', Returned ())"
      by (simp add: load_missing_Cons)
    from Cons.IH [OF this] True show ?thesis by auto
  next
    case False
    with Cons.prems have b: "book s \<noteq> None" and l: "load_missing (add_page s p) ps = (s', Returned ())"
      by (auto simp: load_missing_Cons split: if_splits)
    have "map_of (pages (add_page s p)) p = Some (length (canvases s))"
      using False by (simp add: add_page_def map_add_def)
    moreover have "\<And>k v. map_of (pages s) k = Some v \<Longrightarrow> map_of (pages (add_page s p)) k = Some v"
      by (simp add: add_page_def map_add_def)
    ultimately show ?thesis using Cons.IH [OF l] by auto
  qed
qed

lemma load_missing_calls:
  "load_missing s ps = (s', Returned ()) \<Longrightarrow> distinct ps \<Longrightarrow>
     \<exists>new. getPage_calls s' = getPage_calls s @ new \<and>
       map snd new = map (\<lambda>p. parseInt (substr p 4)) (filter (\<lambda>p. map_of (pages s) p = None) ps)"
proof (induction ps arbitrary: s)
  case Nil
  then show ?case by simp
next
  case (Cons p ps)
  from Cons.prems have d: "distinct ps" and np: "p \<notin> set ps" by auto
  show ?case
  proof (cases "map_of (pages s) p \<noteq> None")
    case True
    with Cons.prems have "load_missing s ps = (s', Returned ())"
      by (simp add: load_missing_Cons)
    from Cons.IH [OF this d] True show ?thesis by auto
  next
    case False
    with Cons.prems have l: "load_missing (add_page s p) ps = (s', Returned ())"
      by (auto simp: load_missing_Cons split: if_splits)
    from Cons.IH [OF l d] obtain new where
      new: "getPage_calls s' = getPage_calls (add_page s p) @ new"
      "map snd new = map (\<lambda>p. parseInt (substr p 4))
         (filter (\<lambda>q. map_of (pages (add_page s p)) q = None) ps)"
      by blast
    have same: "filter (\<lambda>q. map_of (pages (add_page s p)) q = None) ps
        = filter (\<lambda>q. map_of (pages s) q = None) ps"
      using np by (intro filter_cong) (auto simp: add_page_def map_add_def split: option.splits)
    have "getPage_calls s' =
        getPage_calls s @ ((length (canvases s), parseInt (substr p 4)) # new)"
      using new(1) by (simp add: add_page_def)
    moreover have "map snd ((length (canvases s), parseInt (substr p 4)) # new) =
       map (\<lambda>p. parseInt (substr p 4)) (filter (\<lambda>q. map_of (pages s) q = None) (p # ps))"
      using new(2) same False by simp
    ultimately show ?thesis by blast
  qed
qed

lemma parsed_keys:
  "\<forall>k \<in> set ws. safe_integer k \<Longrightarrow>
     map (\<lambda>p. parseInt (substr p 4)) (filter P (map page_key ws))
       = map Some (filter (\<lambda>k. P (page_key k)) ws)"
  by (induction ws) (auto simp: parseInt_page_key)

lemma distinct_parsed_keys:
  assumes "safe_integer (number - pad)" and "safe_integer (number + pad)"
  shows "distinct (map (\<lambda>p. parseInt (substr p 4)) (filter P (cached_pages number dur)))"
  using parsed_keys [OF window_safe [OF assms, of dur], of P]
  by (simp add: cached_pages_window distinct_map distinct_window)

lemma evict_filter:
  "evict keep m ks = filter (\<lambda>(k, _). k \<in> set keep \<or> k \<notin> set ks) m"
proof (induction ks arbitrary: m)
  case Nil
  show ?case by simp
next
  case (Cons k ks)
  show ?case
    by (auto simp: Cons.IH delete_key_def intro: filter_cong)
qed

lemma evict_all: "evict keep m (map fst m) = filter (\<lambda>(k, _). k \<in> set keep) m"
  by (force simp: evict_filter intro!: filter_cong)

lemma map_of_filter_keys:
  "map_of (filter (\<lambda>(k, _). k \<in> A) m) k = (if k \<in> A then map_of m k else None)"
  by (induction m) auto


lemma replaceCanvas_returned:
  "replaceCanvas s c = (s', Returned ()) \<Longrightarrow>
     dom_canvas s \<noteq> None \<and>
     s' = s\<lparr>canvases := (canvases s)[c := (canvases s ! c)\<lparr>elem_id := ''canvas''\<rparr>],
            dom_canvas := Some c\<rparr>"
  by (auto simp: replaceCanvas_def Let_def split: option.splits)

lemma list_update_elem_id_twice:
  "xs[c := (xs[c := (xs ! c)\<lparr>elem_id := ''canvas''\<rparr>] ! c)\<lparr>elem_id := ''canvas''\<rparr>]
     = xs[c := (xs ! c)\<lparr>elem_id := ''canvas''\<rparr>]"
  by (cases "c < length xs") (simp_all add: list_update_beyond)

lemma loadPage_safe:
  "loadPage s n = (s1, Returned ()) \<Longrightarrow> safe_integer (n - pad) \<and> safe_integer (n + pad)"
  by (auto simp: loadPage_def split: if_splits)

lemma loadPage_returned:
  assumes "loadPage s n = (s1, Returned ())"
  shows "\<exists>sa c. load_missing s (cached_pages n (duration s)) = (sa, Returned ())
          \<and> map_of (pages sa) (page_key n) = Some c
          \<and> dom_canvas sa \<noteq> None
          \<and> s1 = sa\<lparr>canvases := (canvases sa)[c := (canvases sa ! c)\<lparr>elem_id := ''canvas''\<rparr>],
                    dom_canvas := Some c,
                    pages := filter (\<lambda>(k, _). k \<in> set (cached_pages n (duration s))) (pages sa)\<rparr>"
proof -
  let ?ps = "cached_pages n (duration s)"
  note safe = loadPage_safe [OF assms]
  obtain sa r where la: "load_missing s ?ps = (sa, r)" by (cases "load_missing s ?ps")
  with assms safe have r: "r = Returned ()"
    by (cases r) (auto simp: loadPage_def Let_def split: option.splits prod.splits outcome.splits)
  from assms safe la r obtain c where c: "map_of (pages sa) (page_key n) = Some c"
    by (cases "map_of (pages sa) (page_key n)") (auto simp: loadPage_def Let_def)
  obtain sb rb where rc: "replaceCanvas sa c = (sb, rb)" by (cases "replaceCanvas sa c")
  with assms safe la r c have rb: "rb = Returned ()"
    by (cases rb) (auto simp: loadPage_def Let_def)
  from assms safe la r c rc rb
  have s1: "s1 = sb\<lparr>pages := evict ?ps (pages sb) (map fst (pages sb))\<rparr>"
    by (simp add: loadPage_def Let_def)
  from replaceCanvas_returned [OF rc [unfolded rb]] s1 la r c show ?thesis
    by (simp add: evict_all)
qed

text \<open>What a call of \<open>loadPage\<close> that returns leaves behind: the cache holds exactly the
  keys built by the padding loop, and the canvas in the document is the one cached for the
  requested page.\<close>

lemma set_window_in_range:
  "1 \<le> number \<Longrightarrow> number \<le> dur \<Longrightarrow>
     set (window number dur) =
       {number} \<union> {k. number - 2 \<le> k \<and> k \<le> number + 2 \<and> 1 \<le> k \<and> k < dur}"
  by (auto simp: window_def)

lemma keys_of_filter:
  "\<forall>p \<in> A. map_of m p \<noteq> None \<Longrightarrow> fst ` set (filter (\<lambda>(k, _). k \<in> A) m) = A"
proof
  show "fst ` set (filter (\<lambda>(k, _). k \<in> A) m) \<subseteq> A" by auto
next
  assume a: "\<forall>p \<in> A. map_of m p \<noteq> None"
  show "A \<subseteq> fst ` set (filter (\<lambda>(k, _). k \<in> A) m)"
  proof
    fix p assume p: "p \<in> A"
    with a obtain c where "map_of m p = Some c" by auto
    then have "(p, c) \<in> set m" by (rule map_of_SomeD)
    with p have "(p, c) \<in> set (filter (\<lambda>(k, _). k \<in> A) m)" by simp
    then show "p \<in> fst ` set (filter (\<lambda>(k, _). k \<in> A) m)" by force
  qed
qed

lemma loadPage_cache:
  assumes "loadPage s n = (s1, Returned ())"
  shows "cache_keys s1 = set (cached_pages n (duration s)) \<and>
         (\<exists>c. dom_canvas s1 = Some c \<and> map_of (pages s1) (page_key n) = Some c)"
proof -
  let ?ps = "cached_pages n (duration s)"
  from loadPage_returned [OF assms] obtain sa c where
    la: "load_missing s ?ps = (sa, Returned ())" and
    c: "map_of (pages sa) (page_key n) = Some c" and
    s1: "s1 = sa\<lparr>canvases := (canvases sa)[c := (canvases sa ! c)\<lparr>elem_id := ''canvas''\<rparr>],
                  dom_canvas := Some c,
                  pages := filter (\<lambda>(k, _). k \<in> set ?ps) (pages sa)\<rparr>"
    by blast
  have "\<forall>p \<in> set ?ps. map_of (pages sa) p \<noteq> None"
    using load_missing_returned [OF la] by simp
  from keys_of_filter [OF this] have "cache_keys s1 = set ?ps"
    by (simp add: cache_keys_def s1)
  moreover have "map_of (pages s1) (page_key n) = Some c"
    using c by (simp add: s1 map_of_filter_keys page_key_in_cached_pages)
  moreover have "dom_canvas s1 = Some c" by (simp add: s1)
  ultimately show ?thesis by simp
qed

lemma loadPage_cache_in_range:
  assumes "loadPage s n = (s1, Returned ())" and "1 \<le> n" and "n \<le> duration s"
  shows "cache_keys s1 =
     page_key ` ({n} \<union> {k. n - 2 \<le> k \<and> k \<le> n + 2 \<and> 1 \<le> k \<and> k < duration s})"
  using loadPage_cache [OF assms(1)] set_window_in_range [OF assms(2,3)]
  by (simp add: cached_pages_window)

text \<open>
  C6. If \<open>loadPage(n)\<close> returns, a second \<open>loadPage(n)\<close> right after it finds every page
  of the window cached: it returns leaving the whole state as it was, so it requests no
  page. The page requests of the first call are for pairwise different pages. Hence the
  two calls together request each page at most once.
\<close>

theorem loadPage_twice:
  assumes "loadPage s n = (s1, Returned ())"
  shows "loadPage s1 n = (s1, Returned ()) \<and>
         (\<exists>new. getPage_calls s1 = getPage_calls s @ new \<and> distinct (map snd new))"
proof -
  let ?ps = "cached_pages n (duration s)"
  from loadPage_returned [OF assms] obtain sa c where
    la: "load_missing s ?ps = (sa, Returned ())" and
    c: "map_of (pages sa) (page_key n) = Some c" and
    dc: "dom_canvas sa \<noteq> None" and
    s1: "s1 = sa\<lparr>canvases := (canvases sa)[c := (canvases sa ! c)\<lparr>elem_id := ''canvas''\<rparr>],
                  dom_canvas := Some c,
                  pages := filter (\<lambda>(k, _). k \<in> set ?ps) (pages sa)\<rparr>"
    by blast
  have "book sa = book s"
    using load_missing_frame [of s ?ps] la by simp
  then have dur: "duration s1 = duration s"
    by (simp add: s1 duration_def)
  have cached: "\<forall>p \<in> set ?ps. map_of (pages s1) p \<noteq> None"
    using load_missing_returned [OF la] by (simp add: s1 map_of_filter_keys)
  have l2: "load_missing s1 ?ps = (s1, Returned ())"
    by (rule load_missing_cached [OF cached])
  have c2: "map_of (pages s1) (page_key n) = Some c"
    using c by (simp add: s1 map_of_filter_keys page_key_in_cached_pages)
  have r2: "replaceCanvas s1 c = (s1, Returned ())"
    by (simp add: replaceCanvas_def Let_def s1 list_update_elem_id_twice)
  have e2: "evict ?ps (pages s1) (map fst (pages s1)) = pages s1"
    by (simp add: evict_all s1 case_prod_unfold)
  note safe = loadPage_safe [OF assms]
  have second: "loadPage s1 n = (s1, Returned ())"
    using safe by (simp add: loadPage_def Let_def dur l2 c2 r2 e2)
  from load_missing_calls [OF la distinct_cached_pages [OF safe [THEN conjunct1] safe [THEN conjunct2]]]
  obtain new where
    new: "getPage_calls sa = getPage_calls s @ new"
      "map snd new = map (\<lambda>p. parseInt (substr p 4))
         (filter (\<lambda>p. map_of (pages s) p = None) ?ps)"
    by blast
  have "distinct (map snd new)"
    by (simp add: new(2) distinct_parsed_keys [OF safe [THEN conjunct1] safe [THEN conjunct2]])
  moreover have "getPage_calls s1 = getPage_calls s @ new"
    by (simp add: s1 new(1))
  ultimately show ?thesis using second by blast
qed


theorem loadPage_twice_witness:
  "loadPage (fst (started 10 0)) 2 = (fst (loadPage (fst (started 10 0)) 2), Returned ()) \<and>
   loadPage (fst (loadPage (fst (started 10 0)) 2)) 2 =
     (fst (loadPage (fst (started 10 0)) 2), Returned ()) \<and>
   (\<exists>new. getPage_calls (fst (loadPage (fst (started 10 0)) 2)) =
            getPage_calls (fst (started 10 0)) @ new \<and> distinct (map snd new))"
proof -
  have "snd (loadPage (fst (started 10 0)) 2) = Returned ()"
    by code_simp
  then have h: "loadPage (fst (started 10 0)) 2 =
      (fst (loadPage (fst (started 10 0)) 2), Returned ())"
    by (simp add: prod_eq_iff)
  from loadPage_twice [OF h] h show ?thesis
    by (intro conjI) (elim conjE, assumption)+
qed

section \<open>Failure of the download\<close>

lemma promises_load_missing: "promises (fst (load_missing s ps)) = promises s"
  by (simp add: load_missing_frame)

lemma promises_loadPage: "promises (fst (loadPage s n)) = promises s"
proof -
  let ?ps = "cached_pages n (duration s)"
  obtain sa r where la: "load_missing s ?ps = (sa, r)" by (cases "load_missing s ?ps")
  then have "promises sa = promises s"
    using promises_load_missing [of s ?ps] by simp
  with la show ?thesis
    by (auto simp: loadPage_def Let_def replaceCanvas_def split: outcome.splits option.splits)
qed

lemma promises_next: "promises (fst (next s)) = promises s"
  using promises_loadPage [of s "progress s + 2"]
  by (auto simp: next_def split: prod.splits outcome.splits)

lemma promises_previous: "promises (fst (previous s)) = promises s"
  using promises_loadPage [of s "progress s"]
  by (auto simp: previous_def split: prod.splits outcome.splits)

lemma promises_stop: "promises (stop s) = promises s"
  by (simp add: stop_def unbindEvents_def Let_def)

lemma promises_onWindowKeyUp: "promises (fst (onWindowKeyUp s k)) = promises s"
  by (simp add: onWindowKeyUp_def promises_next promises_previous promises_stop)

lemma promises_onTouchStart: "promises (fst (onTouchStart s t)) = promises s"
  by (simp add: onTouchStart_def promises_next promises_previous split: option.splits)

lemma promises_play:
  "p < length (promises s) \<Longrightarrow> promises (fst (play s opts)) ! p = promises s ! p"
  by (auto simp: play_def setCurrentSrc_def createMediaElement_def Let_def nth_append
           split: list.splits)

lemma length_promises_play: "length (promises s) \<le> length (promises (fst (play s opts)))"
  by (auto simp: play_def setCurrentSrc_def createMediaElement_def Let_def split: list.splits)

lemma promises_import: "promises (fst (settle_import s r)) = promises s"
  by (auto simp: settle_import_def import_then_def bindEvents_def split: settled.splits)

lemma promises_getPage: "promises (settle_getPage s c r) = promises s"
  by (auto simp: settle_getPage_def getPage_then_def Let_def split: settled.splits)

lemma promises_render: "promises (settle_render s r) = promises s"
  by (auto simp: settle_render_def render_then_def split: settled.splits)

lemma promises_document_then:
  "q \<noteq> p \<Longrightarrow> promises (fst (document_then s q opts b)) ! p = promises s ! p \<and>
     length (promises (fst (document_then s q opts b))) = length (promises s)"
proof -
  assume qp: "q \<noteq> p"
  let ?s1 = "s\<lparr>book := Some b, loaded := True\<rparr>"
  have a: "promises (fst (loadPage ?s1 n)) = promises s" for n
    using promises_loadPage [of ?s1 n] by simp
  show ?thesis
    using qp a [of 1] a [of "startPositionTicks opts div 10000"]
    by (auto simp: document_then_def Let_def split: prod.splits outcome.splits)
qed

lemma fire_keeps_promise:
  assumes "\<forall>opts b. e \<noteq> DocumentSettled p opts (Fulfilled b)" and "p < length (promises s)"
  shows "promises (fire s e) ! p = promises s ! p \<and> p < length (promises (fire s e))"
proof (cases e)
  case (Play opts)
  then show ?thesis
    using promises_play [OF assms(2), of opts] length_promises_play [of s opts] assms(2)
    by (simp add: fire_def)
next
  case (DocumentSettled q opts r)
  show ?thesis
  proof (cases r)
    case (Fulfilled b)
    with DocumentSettled assms(1) have "q \<noteq> p" by auto
    from promises_document_then [OF this, of s opts b] DocumentSettled Fulfilled assms(2)
    show ?thesis by (simp add: fire_def settle_getDocument_def)
  next
    case Rejected
    with DocumentSettled assms(2) show ?thesis by (simp add: fire_def settle_getDocument_def)
  qed
qed (use assms(2) in \<open>simp_all add: fire_def promises_stop promises_next promises_previous
      promises_onWindowKeyUp promises_onTouchStart promises_import promises_getPage
      promises_render onDialogClosed_def\<close>)

lemma run_keeps_promise:
  "\<forall>opts b. DocumentSettled p opts (Fulfilled b) \<notin> set es \<Longrightarrow> p < length (promises s) \<Longrightarrow>
     promises (foldl fire s es) ! p = promises s ! p"
proof (induction es arbitrary: s)
  case Nil
  show ?case by simp
next
  case (Cons e es)
  from Cons.prems(1) have e: "\<forall>opts b. e \<noteq> DocumentSettled p opts (Fulfilled b)" by auto
  from Cons.prems(1) have es: "\<forall>opts b. DocumentSettled p opts (Fulfilled b) \<notin> set es" by auto
  from fire_keeps_promise [OF e Cons.prems(2)] Cons.IH [OF es, of "fire s e"]
  show ?case by simp
qed

text \<open>
  C8. Let \<open>play\<close> return its promise and let the download be started. If the download
  then fails, no code of the player runs: the state stays as it is, with \<open>loaded\<close> false,
  the document field as it was before \<open>play\<close>, an empty cache and no page requested; the
  download was asked for once and is not asked for again; and the promise returned by
  \<open>play\<close> is pending and stays pending whatever happens afterwards, since only the
  fulfilment of this download would resolve it (the code never rejects it).
\<close>

theorem document_load_failure:
  assumes "play s0 opts = (s1, Returned p)"
      and "settle_import s1 (Fulfilled ()) = (s2, Returned ())"
  shows "settle_getDocument s2 p opts Rejected = (s2, Returned ()) \<and>
         loaded s2 = False \<and> book s2 = book s0 \<and> pages s2 = [] \<and>
         getPage_calls s2 = getPage_calls s0 \<and>
         getDocument_calls s2 = getDocument_calls s0 + 1 \<and>
         promises s2 ! p = Pending \<and>
         (\<forall>es. (\<forall>opts' b. DocumentSettled p opts' (Fulfilled b) \<notin> set es) \<longrightarrow>
            promises (foldl fire s2 es) ! p = Pending)"
proof -
  from assms(1) obtain it rest where it: "items opts = it # rest"
    by (cases "items opts") (auto simp: play_def setCurrentSrc_def Let_def)
  let ?m = "createMediaElement (s0\<lparr>progress := 0, loaded := False, cancellationToken := False,
      pages := [], loading_shown := True\<rparr>)"
  from assms(1) it have s1: "s1 = ?m\<lparr>item := Some it, promises := promises ?m @ [Pending]\<rparr>"
    and p: "p = length (promises ?m)"
    by (auto simp: play_def setCurrentSrc_def Let_def)
  have me: "mediaElement ?m" by (simp add: createMediaElement_def Let_def)
  from assms(2) s1 me have s2: "s2 = s1\<lparr>media_events_bound := True, document_events_bound := True,
       getDocument_calls := getDocument_calls s1 + 1\<rparr>"
    by (auto simp: settle_import_def import_then_def bindEvents_def)
  have fields: "loaded ?m = False" "book ?m = book s0" "pages ?m = []"
      "getPage_calls ?m = getPage_calls s0" "getDocument_calls ?m = getDocument_calls s0"
    by (simp_all add: createMediaElement_def Let_def)
  have pend: "promises s2 ! p = Pending" and len: "p < length (promises s2)"
    by (simp_all add: s2 s1 p)
  have never: "\<forall>es. (\<forall>opts' b. DocumentSettled p opts' (Fulfilled b) \<notin> set es) \<longrightarrow>
            promises (foldl fire s2 es) ! p = Pending"
    using run_keeps_promise [OF _ len] pend by simp
  show ?thesis
    using fields pend never by (simp add: settle_getDocument_def s2 s1)
qed

theorem document_load_failure_witness:
  "play (new_player 1200 800) (sample_options 0) =
     (fst (play (new_player 1200 800) (sample_options 0)), Returned 0) \<and>
   settle_getDocument
     (fst (settle_import (fst (play (new_player 1200 800) (sample_options 0))) (Fulfilled ())))
     0 (sample_options 0) Rejected =
     (fst (settle_import (fst (play (new_player 1200 800) (sample_options 0))) (Fulfilled ())),
      Returned ()) \<and>
   promises (foldl fire
     (fst (settle_import (fst (play (new_player 1200 800) (sample_options 0))) (Fulfilled ())))
     [DocumentSettled 0 (sample_options 0) Rejected, KeyUp ''l'', Stop,
      Play (sample_options 0)]) ! 0 = Pending"
proof -
  let ?s1 = "fst (play (new_player 1200 800) (sample_options 0))"
  let ?s2 = "fst (settle_import ?s1 (Fulfilled ()))"
  have a: "snd (play (new_player 1200 800) (sample_options 0)) = Returned 0"
    by code_simp
  have b: "snd (settle_import ?s1 (Fulfilled ())) = Returned ()"
    by code_simp
  have h1: "play (new_player 1200 800) (sample_options 0) = (?s1, Returned 0)"
    using a by (simp add: prod_eq_iff)
  have h2: "settle_import ?s1 (Fulfilled ()) = (?s2, Returned ())"
    using b by (simp add: prod_eq_iff)
  let ?es = "[DocumentSettled 0 (sample_options 0) Rejected, KeyUp ''l'', Stop,
      Play (sample_options 0)]"
  have es: "\<forall>opts' b. DocumentSettled 0 opts' (Fulfilled b) \<notin> set ?es"
    by simp
  note f = document_load_failure [OF h1 h2]
  from f have c1: "settle_getDocument ?s2 0 (sample_options 0) Rejected = (?s2, Returned ())"
    by (rule conjunct1)
  from f have "\<forall>es. (\<forall>opts' b. DocumentSettled 0 opts' (Fulfilled b) \<notin> set es) \<longrightarrow>
            promises (foldl fire ?s2 es) ! 0 = Pending"
    by (elim conjE)
  then have "(\<forall>opts' b. DocumentSettled 0 opts' (Fulfilled b) \<notin> set ?es) \<longrightarrow>
            promises (foldl fire ?s2 ?es) ! 0 = Pending"
    by (rule spec)
  with es have c2: "promises (foldl fire ?s2 ?es) ! 0 = Pending"
    by (rule rev_mp)
  from h1 c1 c2 show ?thesis by (intro conjI)
qed



section \<open>Navigation\<close>

text \<open>
  C3. A 10-page document started at page 1 (start position 0): the cache holds the keys
  of pages 1, 2 and 3 and page 1 is shown. After three calls of \<open>next\<close>, each of which
  returns, the current time is 3 (page 4 is shown), the cache holds the keys of pages
  2 to 6, and the key of page 1, cached at the start, is gone.
\<close>

theorem ten_page_scenario:
  "let s3 = fst (started 10 0);
       r1 = next s3; r2 = next (fst r1); r3 = next (fst r2);
       s6 = fst r3
   in snd (started 10 0) = Returned () \<and>
      currentTime s3 = 0 \<and> displayed_page s3 = Some 1 \<and>
      cache_keys s3 = {''page1'', ''page2'', ''page3''} \<and>
      snd r1 = Returned () \<and> snd r2 = Returned () \<and> snd r3 = Returned () \<and>
      currentTime s6 = 3 \<and> displayed_page s6 = Some 4 \<and>
      cache_keys s6 = {''page2'', ''page3'', ''page4'', ''page5'', ''page6''} \<and>
      ''page1'' \<in> cache_keys s3 \<and> ''page1'' \<notin> cache_keys s6"
  by code_simp

text \<open>
  C5. \<open>previous\<close> with progress 0 and \<open>next\<close> with progress equal to \<open>duration() - 1\<close>
  return at once: the whole state (progress, cache, canvas in the document, and all the
  rest) is the state before the call.
\<close>

theorem boundary_navigation_noop:
  "(progress s = 0 \<longrightarrow> previous s = (s, Returned ())) \<and>
   (progress s = duration s - 1 \<longrightarrow> next s = (s, Returned ()))"
  by (simp add: previous_def next_def)

theorem boundary_navigation_noop_witness:
  "progress (fst (started 10 0)) = 0 \<and>
   previous (fst (started 10 0)) = (fst (started 10 0), Returned ()) \<and>
   progress (fst (next (fst (started 2 0)))) = duration (fst (next (fst (started 2 0)))) - 1 \<and>
   displayed_page (fst (next (fst (started 2 0)))) = Some 2 \<and>
   next (fst (next (fst (started 2 0)))) = (fst (next (fst (started 2 0))), Returned ())"
proof -
  have a: "progress (fst (started 10 0)) = 0" by code_simp
  have b: "progress (fst (next (fst (started 2 0)))) = duration (fst (next (fst (started 2 0)))) - 1"
    by code_simp
  have e: "displayed_page (fst (next (fst (started 2 0)))) = Some 2"
    by code_simp
  from boundary_navigation_noop [of "fst (started 10 0)"] a
  have c: "previous (fst (started 10 0)) = (fst (started 10 0), Returned ())" by blast
  from boundary_navigation_noop [of "fst (next (fst (started 2 0)))"] b
  have d: "next (fst (next (fst (started 2 0)))) = (fst (next (fst (started 2 0))), Returned ())"
    by blast
  from a b c d e show ?thesis by (intro conjI)
qed

text \<open>
  C1, where the code departs from the specified window \<open>{n-2..n+2} \<inter> [1, pageCount]\<close>. A 3-page
  document started at page 1: the cache holds the keys of pages 1 and 2 only, not that
  of page 3. \<open>loadPage(8)\<close> on a 10-page document: the cache holds the keys of pages 6
  to 9, not that of page 10. The padding loop admits \<open>number + i\<close> only when it is
  less than \<open>duration()\<close>, so the last page enters the window only as the requested page.
\<close>

theorem last_page_not_in_window:
  "snd (started 3 0) = Returned () \<and>
   displayed_page (fst (started 3 0)) = Some 1 \<and>
   cache_keys (fst (started 3 0)) = {''page1'', ''page2''} \<and>
   ''page3'' \<notin> cache_keys (fst (started 3 0)) \<and>
   snd (loadPage (fst (started 10 0)) 8) = Returned () \<and>
   cache_keys (fst (loadPage (fst (started 10 0)) 8)) = {''page6'', ''page7'', ''page8'', ''page9''}"
  by code_simp

text \<open>
  C7, where the code departs from \<open>displayed page = progress + 1\<close>. A 10-page
  document started with start position 30000: page 3 is shown and the current time is 3,
  so the page shown is not the current time plus one. A following \<open>next\<close> shows page 5
  with current time 4.
\<close>

theorem resume_shows_page_equal_to_progress:
  "let s = fst (started 10 30000); t = fst (next s)
   in snd (started 10 30000) = Returned () \<and> loaded s \<and>
      displayed_page s = Some 3 \<and> currentTime s = 3 \<and>
      displayed_page s \<noteq> Some (currentTime s + 1) \<and>
      displayed_page t = Some 5 \<and> currentTime t = 4"
  by code_simp

section \<open>Stopping\<close>

text \<open>\<open>stop\<close> sets the flag, and the callback on the download reads it first; the
  callback on a page request changes the state whatever the flag is.\<close>

lemma stop_sets_flag: "cancellationToken (stop s)"
  by (simp add: stop_def Let_def)

lemma document_then_cancelled:
  "cancellationToken s \<Longrightarrow> document_then s promise opts b = (s, Returned ())"
  by (simp add: document_then_def)

lemma getPage_then_changes: "getPage_then s canvas page \<noteq> s"
proof
  assume "getPage_then s canvas page = s"
  then have "timeupdates (getPage_then s canvas page) = timeupdates s" by simp
  then show False by (simp add: getPage_then_def Let_def)
qed


text \<open>
  C2, where the code departs from \<open>a render that resolves after stop() is a no-op\<close>. A 10-page
  document is started, which requests page 1 for the canvas cached under \<open>page1\<close>; the
  player is stopped, which sets the cancellation flag; then the page request is
  fulfilled. The callback does not read the flag: it resizes and paints that canvas and
  triggers \<open>timeupdate\<close>, so the state after it differs from the state before it.
\<close>

theorem render_after_stop_changes_canvas:
  "let s3 = fst (started 10 0);
       s4 = stop s3;
       s5 = settle_getPage s4 1 (Fulfilled \<lparr>page_width = 600, page_height = 800\<rparr>)
   in cancellationToken s4 \<and>
      (1, Some 1) \<in> set (getPage_calls s4) \<and>
      map_of (pages s4) ''page1'' = Some 1 \<and>
      canvases s4 ! 1 = \<lparr>elem_id = ''canvas'', width = 300, height = 150, painted = None\<rparr> \<and>
      canvases s5 ! 1 = \<lparr>elem_id = ''canvas'', width = 600, height = 800,
                          painted = Some \<lparr>page_width = 600, page_height = 800\<rparr>\<rparr> \<and>
      timeupdates s5 = timeupdates s4 + 1 \<and>
      s5 \<noteq> s4"
  by code_simp

section \<open>Applicability\<close>

lemma endsWith_iff: "endsWith s suffix \<longleftrightarrow> (\<exists>stem. s = stem @ suffix)"
proof
  assume "endsWith s suffix"
  then have "s = take (length s - length suffix) s @ suffix"
    by (metis append_take_drop_id endsWith_def)
  then show "\<exists>stem. s = stem @ suffix" ..
next
  assume "\<exists>stem. s = stem @ suffix"
  then show "endsWith s suffix" by (auto simp: endsWith_def)
qed

lemma index_of_Some: "index_of x xs = Some i \<Longrightarrow> i < length xs \<and> xs ! i = x"
proof (induction xs arbitrary: i)
  case Nil
  then show ?case by simp
next
  case (Cons y ys)
  show ?case
  proof (cases "x = y")
    case True
    with Cons.prems show ?thesis by simp
  next
    case False
    with Cons.prems obtain j where j: "index_of x ys = Some j" and i: "i = Suc j"
      by (auto split: option.splits)
    from Cons.IH [OF j] i show ?thesis by simp
  qed
qed

lemma char_toLowerCase_cases:
  "char_toLowerCase c = c \<or>
   (\<exists>i < 26. c = ''ABCDEFGHIJKLMNOPQRSTUVWXYZ'' ! i \<and>
       char_toLowerCase c = ''abcdefghijklmnopqrstuvwxyz'' ! i)"
proof (cases "index_of c ''ABCDEFGHIJKLMNOPQRSTUVWXYZ''")
  case None
  then show ?thesis by (simp add: char_toLowerCase_def)
next
  case (Some i)
  from index_of_Some [OF Some] have "i < 26" "''ABCDEFGHIJKLMNOPQRSTUVWXYZ'' ! i = c"
    by simp_all
  moreover from Some have "char_toLowerCase c = ''abcdefghijklmnopqrstuvwxyz'' ! i"
    by (simp add: char_toLowerCase_def)
  ultimately show ?thesis by blast
qed

lemma lower_letters_distinct: "distinct ''abcdefghijklmnopqrstuvwxyz''"
  by simp

lemma lower_letter_index:
  "i < 26 \<Longrightarrow> j < 26 \<Longrightarrow>
     ''abcdefghijklmnopqrstuvwxyz'' ! i = ''abcdefghijklmnopqrstuvwxyz'' ! j \<Longrightarrow> i = j"
  using lower_letters_distinct by (simp add: nth_eq_iff_index_eq)

lemma char_toLowerCase_letter:
  assumes "j < 26"
      and "char_toLowerCase (''abcdefghijklmnopqrstuvwxyz'' ! j) = ''abcdefghijklmnopqrstuvwxyz'' ! j"
      and "char_toLowerCase (''ABCDEFGHIJKLMNOPQRSTUVWXYZ'' ! j) = ''abcdefghijklmnopqrstuvwxyz'' ! j"
  shows "char_toLowerCase c = ''abcdefghijklmnopqrstuvwxyz'' ! j \<longleftrightarrow>
         c = ''abcdefghijklmnopqrstuvwxyz'' ! j \<or> c = ''ABCDEFGHIJKLMNOPQRSTUVWXYZ'' ! j"
proof
  assume a: "char_toLowerCase c = ''abcdefghijklmnopqrstuvwxyz'' ! j"
  from char_toLowerCase_cases [of c]
  show "c = ''abcdefghijklmnopqrstuvwxyz'' ! j \<or> c = ''ABCDEFGHIJKLMNOPQRSTUVWXYZ'' ! j"
  proof
    assume "char_toLowerCase c = c"
    with a show ?thesis by simp
  next
    assume "\<exists>i < 26. c = ''ABCDEFGHIJKLMNOPQRSTUVWXYZ'' ! i \<and>
       char_toLowerCase c = ''abcdefghijklmnopqrstuvwxyz'' ! i"
    then obtain i where i: "i < 26" "c = ''ABCDEFGHIJKLMNOPQRSTUVWXYZ'' ! i"
      "char_toLowerCase c = ''abcdefghijklmnopqrstuvwxyz'' ! i" by blast
    have "''abcdefghijklmnopqrstuvwxyz'' ! i = ''abcdefghijklmnopqrstuvwxyz'' ! j"
      using a i(3) by simp
    from lower_letter_index [OF i(1) assms(1) this] i(2) show ?thesis by simp
  qed
next
  assume "c = ''abcdefghijklmnopqrstuvwxyz'' ! j \<or> c = ''ABCDEFGHIJKLMNOPQRSTUVWXYZ'' ! j"
  with assms(2,3) show "char_toLowerCase c = ''abcdefghijklmnopqrstuvwxyz'' ! j"
    by auto
qed

lemma char_toLowerCase_b: "char_toLowerCase c = CHR ''b'' \<longleftrightarrow> c = CHR ''b'' \<or> c = CHR ''B''"
  using char_toLowerCase_letter [of 1 c] by (simp add: char_toLowerCase_def)

lemma char_toLowerCase_o: "char_toLowerCase c = CHR ''o'' \<longleftrightarrow> c = CHR ''o'' \<or> c = CHR ''O''"
  using char_toLowerCase_letter [of 14 c] by (simp add: char_toLowerCase_def)

lemma char_toLowerCase_k: "char_toLowerCase c = CHR ''k'' \<longleftrightarrow> c = CHR ''k'' \<or> c = CHR ''K''"
  using char_toLowerCase_letter [of 10 c] by (simp add: char_toLowerCase_def)

lemma toLowerCase_book:
  "toLowerCase m = ''book'' \<longleftrightarrow>
     (\<exists>a b c d. m = [a, b, c, d] \<and> (a = CHR ''b'' \<or> a = CHR ''B'') \<and>
        (b = CHR ''o'' \<or> b = CHR ''O'') \<and> (c = CHR ''o'' \<or> c = CHR ''O'') \<and>
        (d = CHR ''k'' \<or> d = CHR ''K''))"
proof
  assume "toLowerCase m = ''book''"
  then obtain a b c d where m: "m = [a, b, c, d]"
    and l: "char_toLowerCase a = CHR ''b''" "char_toLowerCase b = CHR ''o''"
      "char_toLowerCase c = CHR ''o''" "char_toLowerCase d = CHR ''k''"
    unfolding toLowerCase_def by (auto simp: map_eq_Cons_conv)
  from l have "a = CHR ''b'' \<or> a = CHR ''B''" "b = CHR ''o'' \<or> b = CHR ''O''"
    "c = CHR ''o'' \<or> c = CHR ''O''" "d = CHR ''k'' \<or> d = CHR ''K''"
    by (simp_all only: char_toLowerCase_b char_toLowerCase_o char_toLowerCase_k)
  with m show "\<exists>a b c d. m = [a, b, c, d] \<and> (a = CHR ''b'' \<or> a = CHR ''B'') \<and>
        (b = CHR ''o'' \<or> b = CHR ''O'') \<and> (c = CHR ''o'' \<or> c = CHR ''O'') \<and>
        (d = CHR ''k'' \<or> d = CHR ''K'')" by blast
next
  assume "\<exists>a b c d. m = [a, b, c, d] \<and> (a = CHR ''b'' \<or> a = CHR ''B'') \<and>
        (b = CHR ''o'' \<or> b = CHR ''O'') \<and> (c = CHR ''o'' \<or> c = CHR ''O'') \<and>
        (d = CHR ''k'' \<or> d = CHR ''K'')"
  then obtain a b c d where m: "m = [a, b, c, d]"
    and l: "a = CHR ''b'' \<or> a = CHR ''B''" "b = CHR ''o'' \<or> b = CHR ''O''"
    "c = CHR ''o'' \<or> c = CHR ''O''" "d = CHR ''k'' \<or> d = CHR ''K''" by blast
  from l have "char_toLowerCase a = CHR ''b''" "char_toLowerCase b = CHR ''o''"
      "char_toLowerCase c = CHR ''o''" "char_toLowerCase d = CHR ''k''"
    by (simp_all only: char_toLowerCase_b char_toLowerCase_o char_toLowerCase_k)
  with m show "toLowerCase m = ''book''" by (simp add: toLowerCase_def)
qed

text \<open>
  C4, as amended. \<open>canPlayItem\<close> is true exactly for the items whose path ends with the
  three characters \<open>pdf\<close>, with or without a dot before them (so only for those), and
  \<open>canPlayMediaType\<close> is true exactly for the media types that read \<open>book\<close> in lower
  case (so only for those); for a media type of ASCII characters these are the sixteen
  spellings of \<open>book\<close> in upper and lower case. An item with path \<open>movie.pdf\<close> can be
  played, one with path \<open>movie.mkv\<close> cannot.
\<close>

theorem applicability:
  "(canPlayItem it \<longleftrightarrow> (\<exists>stem. Path it = Some (stem @ ''pdf''))) \<and>
   (canPlayMediaType t \<longleftrightarrow> (\<exists>m. t = Some m \<and> toLowerCase m = ''book'')) \<and>
   ((\<forall>x \<in> set m. ascii x) \<longrightarrow>
      (canPlayMediaType (Some m) \<longleftrightarrow>
         (\<exists>a b c d. m = [a, b, c, d] \<and> (a = CHR ''b'' \<or> a = CHR ''B'') \<and>
            (b = CHR ''o'' \<or> b = CHR ''O'') \<and> (c = CHR ''o'' \<or> c = CHR ''O'') \<and>
            (d = CHR ''k'' \<or> d = CHR ''K'')))) \<and>
   canPlayItem (it\<lparr>Path := Some ''movie.pdf''\<rparr>) \<and>
   \<not> canPlayItem (it\<lparr>Path := Some ''movie.mkv''\<rparr>)"
proof -
  have a: "canPlayItem it \<longleftrightarrow> (\<exists>stem. Path it = Some (stem @ ''pdf''))"
    by (cases "Path it") (auto simp: canPlayItem_def endsWith_iff)
  have b: "canPlayMediaType t \<longleftrightarrow> (\<exists>m. t = Some m \<and> toLowerCase m = ''book'')"
    by (cases t) (auto simp: canPlayMediaType_def toLowerCase_def)
  have e: "canPlayMediaType (Some m) \<longleftrightarrow>
         (\<exists>a b c d. m = [a, b, c, d] \<and> (a = CHR ''b'' \<or> a = CHR ''B'') \<and>
            (b = CHR ''o'' \<or> b = CHR ''O'') \<and> (c = CHR ''o'' \<or> c = CHR ''O'') \<and>
            (d = CHR ''k'' \<or> d = CHR ''K''))"
    using toLowerCase_book [of m] by (simp add: canPlayMediaType_def)
  have c: "canPlayItem (it\<lparr>Path := Some ''movie.pdf''\<rparr>)"
    by (simp add: canPlayItem_def endsWith_def)
  have d: "\<not> canPlayItem (it\<lparr>Path := Some ''movie.mkv''\<rparr>)"
    by (simp add: canPlayItem_def endsWith_def)
  from a b c d e show ?thesis by blast
qed

theorem applicability_witness:
  "ascii CHR ''B'' \<and> ascii CHR ''o'' \<and> ascii CHR ''k'' \<and>
   canPlayMediaType (Some ''Book'') \<and> toLowerCase ''Book'' = ''book'' \<and>
   canPlayItem \<lparr>Id = ''7'', ServerId = ''s'', Path = Some ''movie.pdf'', MediaType = Some ''Book''\<rparr> \<and>
   \<not> canPlayItem \<lparr>Id = ''7'', ServerId = ''s'', Path = Some ''movie.mkv'', MediaType = Some ''Book''\<rparr> \<and>
   \<not> canPlayItem \<lparr>Id = ''7'', ServerId = ''s'', Path = None, MediaType = Some ''Book''\<rparr> \<and>
   \<not> canPlayMediaType (Some ''Video'') \<and> \<not> canPlayMediaType None"
proof -
  have z: "\<forall>x \<in> set ''Book''. ascii x" by (simp add: ascii_def)
  have b: "\<not> canPlayMediaType (Some ''Video'')" "\<not> canPlayMediaType None"
    "\<not> canPlayItem \<lparr>Id = ''7'', ServerId = ''s'', Path = None, MediaType = Some ''Book''\<rparr>"
    by code_simp+
  note t = applicability [of "\<lparr>Id = ''7'', ServerId = ''s'', Path = None, MediaType = Some ''Book''\<rparr>"
      "Some ''Book''" "''Book''"]
  have a: "canPlayMediaType (Some ''Book'')" by code_simp
  have c: "toLowerCase ''Book'' = ''book''" by code_simp
  from t have d: "canPlayItem \<lparr>Id = ''7'', ServerId = ''s'', Path = Some ''movie.pdf'', MediaType = Some ''Book''\<rparr>"
    "\<not> canPlayItem \<lparr>Id = ''7'', ServerId = ''s'', Path = Some ''movie.mkv'', MediaType = Some ''Book''\<rparr>"
    by simp_all
  from z have z': "ascii CHR ''B''" "ascii CHR ''o''" "ascii CHR ''k''" by simp_all
  from z' a b c d show ?thesis by (intro conjI)
qed


text \<open>
  C4 as stated, true only for a path that ends in a PDF extension or a declared type
  \<open>book\<close>, fails at the paths \<open>notapdf\<close> and \<open>pdf\<close> of an item declared as video:
  \<open>canPlayItem\<close> is true, the path has no dot and so no extension at all, and
  \<open>canPlayMediaType\<close> is false for the declared type.
\<close>

theorem applicability_counterexample:
  "canPlayItem \<lparr>Id = ''7'', ServerId = ''s'', Path = Some ''notapdf'', MediaType = Some ''Video''\<rparr> \<and>
   CHR ''.'' \<notin> set ''notapdf'' \<and>
   \<not> spec_ends_in_pdf_extension ''notapdf'' \<and>
   \<not> canPlayMediaType (Some ''Video'') \<and>
   canPlayItem \<lparr>Id = ''7'', ServerId = ''s'', Path = Some ''pdf'', MediaType = Some ''Video''\<rparr> \<and>
   \<not> spec_ends_in_pdf_extension ''pdf'' \<and>
   spec_ends_in_pdf_extension ''movie.pdf'' \<and> \<not> spec_ends_in_pdf_extension ''movie.mkv''"
  by code_simp



section \<open>Attaching the collapsible panel\<close>

lemma classList_add_contains: "classList_contains (classList_add cs c) c"
  by (simp add: classList_contains_def classList_add_def)

lemma classList_onButtonClick: "classList (fst (onButtonClick e b h)) = classList e"
  by (simp add: onButtonClick_def slideUpToHide_def slideDownToShow_def update_icon_def Let_def
           split: option.splits)

lemma attachedCallback_marks:
  "classList_contains (classList (fst (attachedCallback e h))) ''emby-collapse''"
proof (cases "classList_contains (classList e) ''emby-collapse''")
  case True
  then show ?thesis by (simp add: attachedCallback_def)
next
  case False
  then show ?thesis
    by (simp add: attachedCallback_def Let_def classList_onButtonClick classList_add_contains
             split: option.splits)
qed

text \<open>
  C10. An element that carries the class \<open>emby-collapse\<close> is returned by
  \<open>attachedCallback\<close> as it is: no button inserted, no class changed, no listener bound.
  After any invocation the element carries that class, also when the invocation threw,
  so a second invocation returns at once and changes nothing.
\<close>

theorem attachedCallback_once:
  "(classList_contains (classList e) ''emby-collapse'' \<longrightarrow> attachedCallback e h = (e, Returned ())) \<and>
   classList_contains (classList (fst (attachedCallback e h))) ''emby-collapse'' \<and>
   attachedCallback (fst (attachedCallback e h)) h' = (fst (attachedCallback e h), Returned ())"
proof -
  have a: "classList_contains (classList x) ''emby-collapse'' \<longrightarrow>
      attachedCallback x k = (x, Returned ())" for x k
    by (simp add: attachedCallback_def)
  from a [of e h] a [of "fst (attachedCallback e h)" h'] attachedCallback_marks [of e h]
  show ?thesis by blast
qed

theorem attachedCallback_once_witness:
  "\<not> classList_contains (classList sample_panel) ''emby-collapse'' \<and>
   length (buttons (fst (attachedCallback sample_panel 120))) = 1 \<and>
   classList_contains (classList (fst (attachedCallback sample_panel 120))) ''emby-collapse'' \<and>
   attachedCallback (fst (attachedCallback sample_panel 120)) 120 =
     (fst (attachedCallback sample_panel 120), Returned ())"
proof -
  have a: "\<not> classList_contains (classList sample_panel) ''emby-collapse''" by code_simp
  have b: "length (buttons (fst (attachedCallback sample_panel 120))) = 1" by code_simp
  have c: "classList_contains (classList (fst (attachedCallback sample_panel 120))) ''emby-collapse''"
    by code_simp
  from attachedCallback_once [of "fst (attachedCallback sample_panel 120)" 120 120] c
  have d: "attachedCallback (fst (attachedCallback sample_panel 120)) 120 =
     (fst (attachedCallback sample_panel 120), Returned ())" by blast
  from a b c d show ?thesis by (intro conjI)
qed


end
